theory Spec2Isabelle
  imports Main "HOL-Library.Sublist"
begin

section \<open>Output normalizer (helpers/text\_processor.py)\<close>

text \<open>
  Python strings are modelled as \<open>string\<close>: every character is a code point below 256.
  The two control characters the normalizer looks at are ESC (0x1B) and backspace (0x08).
\<close>

abbreviation ESC :: char where "ESC \<equiv> CHR 0x1B"
abbreviation BS :: char where "BS \<equiv> CHR 0x08"

subsection \<open>clean\_text\<close>

text \<open>
  \<^verbatim>\<open>
  def clean_text(text):
      stack = []
      for char in text:
          if char != "\x08":
              stack.append(char)
          elif stack:
              stack.pop()
      return "".join(stack)
  \<close>
  The stack is a list whose last element is the top, as in the source.
\<close>

definition clean_text_step :: "string \<Rightarrow> char \<Rightarrow> string" where
  "clean_text_step stack c =
     (if c \<noteq> BS then stack @ [c]
      else if stack \<noteq> [] then butlast stack
      else stack)"

definition clean_text :: "string \<Rightarrow> string" where
  "clean_text text = foldl clean_text_step [] text"

subsection \<open>strip\_ansi\<close>

text \<open>
  \<^verbatim>\<open>
  def strip_ansi(text):
      return re.sub(r"\x1B\[[0-?]*[ -/]*[@-~]", "", text)
  \<close>
  The pattern is ESC, an opening bracket, parameter bytes \<open>[0-?]\<close> (0x30 to 0x3F),
  intermediate bytes \<open>[ -/]\<close> (0x20 to 0x2F) and one final byte \<open>[@-~]\<close> (0x40 to 0x7E).
  The three classes are disjoint, so the greedy stars never have to give a character
  back: a match at a position, when there is one, is unique (lemma \<open>match_csi_iff\<close> and
  \<open>csi_prefix_unique\<close> below). \<open>match_csi s\<close> is the text after the match of the
  pattern at the start of \<open>s\<close>; \<open>re.sub\<close> scans from the left, deletes each match and
  goes on after it.
\<close>

definition is_param :: "char \<Rightarrow> bool" where
  "is_param c \<longleftrightarrow> (0x30::nat) \<le> of_char c \<and> of_char c \<le> (0x3F::nat)"

definition is_inter :: "char \<Rightarrow> bool" where
  "is_inter c \<longleftrightarrow> (0x20::nat) \<le> of_char c \<and> of_char c \<le> (0x2F::nat)"

definition is_final :: "char \<Rightarrow> bool" where
  "is_final c \<longleftrightarrow> (0x40::nat) \<le> of_char c \<and> of_char c \<le> (0x7E::nat)"

fun match_csi :: "string \<Rightarrow> string option" where
  "match_csi (e # b # rest) =
     (if e = ESC \<and> b = CHR ''[''
      then (case dropWhile is_inter (dropWhile is_param rest) of
              [] \<Rightarrow> None
            | f # rest' \<Rightarrow> if is_final f then Some rest' else None)
      else None)"
| "match_csi _ = None"

lemma match_csi_shorter: "match_csi s = Some r \<Longrightarrow> length r < length s"
proof (cases s rule: match_csi.cases)
  case (1 e b rest)
  assume m: "match_csi s = Some r"
  have "length (dropWhile is_inter (dropWhile is_param rest)) \<le> length rest"
    by (meson length_dropWhile_le order_trans)
  with m 1 show ?thesis
    by (auto split: if_splits list.splits)
qed simp_all

function strip_ansi :: "string \<Rightarrow> string" where
  "strip_ansi [] = []"
| "strip_ansi (c # cs) =
     (case match_csi (c # cs) of
        Some rest \<Rightarrow> strip_ansi rest
      | None \<Rightarrow> c # strip_ansi cs)"
  by pat_completeness auto
termination
  by (relation "measure length") (auto dest: match_csi_shorter)

subsection \<open>clean\<close>

definition clean :: "string \<Rightarrow> string" where
  "clean text = clean_text (strip_ansi text)"

text \<open>The language of the pattern, to compare \<open>match_csi\<close> with.\<close>

definition csi_lang :: "string set" where
  "csi_lang = {ESC # CHR ''['' # ps @ ins @ [f] | ps ins f.
                 (\<forall>c \<in> set ps. is_param c) \<and> (\<forall>c \<in> set ins. is_inter c) \<and> is_final f}"

text \<open>Every ESC of the text starts a complete sequence of the pattern.\<close>

fun escapes_complete :: "string \<Rightarrow> bool" where
  "escapes_complete [] = True"
| "escapes_complete (c # cs) =
     ((c = ESC \<longrightarrow> match_csi (c # cs) \<noteq> None) \<and> escapes_complete cs)"

text \<open>Somewhere in the text the pattern matches.\<close>

fun has_csi :: "string \<Rightarrow> bool" where
  "has_csi [] = False"
| "has_csi (c # cs) = (match_csi (c # cs) \<noteq> None \<or> has_csi cs)"

subsection \<open>Python's string operations used by the code\<close>

abbreviation LF :: char where "LF \<equiv> CHR 0x0A"
abbreviation CR :: char where "CR \<equiv> CHR 0x0D"

text \<open>
  \<open>str.splitlines()\<close> breaks at LF, CR, CR LF, VT, FF, FS, GS, RS and NEL (the
  boundaries below code point 256) and gives no last empty line;
  \<open>"\n".join\<close>; \<open>str.lstrip()\<close> and \<open>str.strip()\<close> remove the characters
  for which \<open>str.isspace\<close> holds; \<open>sub in s\<close>; \<open>s.replace(old, "")\<close> deletes
  the occurrences of \<open>old\<close> found from the left, without overlap.
\<close>

definition is_linebreak :: "char \<Rightarrow> bool" where
  "is_linebreak c \<longleftrightarrow>
     of_char c \<in> {0x0A, 0x0B, 0x0C, 0x0D, 0x1C, 0x1D, 0x1E, 0x85 :: nat}"

fun splitlines_from :: "string \<Rightarrow> string \<Rightarrow> string list" where
  "splitlines_from cur [] = (if cur = [] then [] else [cur])"
| "splitlines_from cur [c] = (if is_linebreak c then [cur] else [cur @ [c]])"
| "splitlines_from cur (c # d # cs) =
     (if c = CR \<and> d = LF then cur # splitlines_from [] cs
      else if is_linebreak c then cur # splitlines_from [] (d # cs)
      else splitlines_from (cur @ [c]) (d # cs))"

definition splitlines :: "string \<Rightarrow> string list" where
  "splitlines text = splitlines_from [] text"

fun join_lines :: "string list \<Rightarrow> string" where
  "join_lines [] = []"
| "join_lines [l] = l"
| "join_lines (l # ls) = l @ [LF] @ join_lines ls"

definition is_space :: "char \<Rightarrow> bool" where
  "is_space c \<longleftrightarrow>
     of_char c \<in> {0x09, 0x0A, 0x0B, 0x0C, 0x0D, 0x1C, 0x1D, 0x1E, 0x1F, 0x20, 0x85, 0xA0 :: nat}"

definition lstrip :: "string \<Rightarrow> string" where
  "lstrip s = dropWhile is_space s"

definition strip :: "string \<Rightarrow> string" where
  "strip s = rev (dropWhile is_space (rev (dropWhile is_space s)))"

fun contains :: "string \<Rightarrow> string \<Rightarrow> bool" where
  "contains sub [] = (sub = [])"
| "contains sub (c # cs) = (prefix sub (c # cs) \<or> contains sub cs)"

function remove_all :: "string \<Rightarrow> string \<Rightarrow> string" where
  "remove_all old [] = []"
| "remove_all old (c # cs) =
     (if old \<noteq> [] \<and> prefix old (c # cs) then remove_all old (drop (length old) (c # cs))
      else c # remove_all old cs)"
  by pat_completeness auto
termination
  by (relation "measure (\<lambda>(old, s). length s)") auto

subsection \<open>Regular expressions\<close>

text \<open>
  The code hands its patterns to Python's \<open>re\<close> module. \<open>re.compile\<close> is a
  parameter of the model: a \<open>regex_engine\<close> maps a pattern to \<open>None\<close> when the
  pattern does not compile (\<open>re.error\<close>), and otherwise to the test "\<open>search\<close> finds
  a match somewhere in the text". \<open>re.search(p, s)\<close> compiles and searches.
\<close>

type_synonym matcher = "string \<Rightarrow> bool"
type_synonym regex_engine = "string \<Rightarrow> matcher option"

definition re_search :: "regex_engine \<Rightarrow> string \<Rightarrow> string \<Rightarrow> bool option" where
  "re_search eng pattern text = map_option (\<lambda>m. m text) (eng pattern)"

text \<open>
  \<open>py_compile\<close> is \<open>re.compile\<close> on a fragment of the pattern syntax, for evaluating
  the code on concrete inputs: a pattern is a sequence of atoms, each optionally under a
  star; an atom is an ordinary character, \<open>.\<close> (any character but LF), or a backslash
  before a character that is neither an ASCII letter nor a digit (that character,
  literally). On any other pattern \<open>py_compile\<close> is \<open>None\<close>; the concrete inputs
  below stay inside the fragment.
\<close>

datatype atom = Lit char | AnyChar
datatype item = One atom | Star atom

abbreviation BACKSLASH :: char where "BACKSLASH \<equiv> CHR 0x5C"

definition is_meta :: "char \<Rightarrow> bool" where
  "is_meta c \<longleftrightarrow> c \<in> set ''.^$*+?{}[]|()'' \<or> c = BACKSLASH"

definition is_alnum :: "char \<Rightarrow> bool" where
  "is_alnum c \<longleftrightarrow>
     (0x30::nat) \<le> of_char c \<and> of_char c \<le> (0x39::nat) \<or>
     (0x41::nat) \<le> of_char c \<and> of_char c \<le> (0x5A::nat) \<or>
     (0x61::nat) \<le> of_char c \<and> of_char c \<le> (0x7A::nat)"

fun parse_atom :: "string \<Rightarrow> (atom \<times> string) option" where
  "parse_atom [] = None"
| "parse_atom (c # cs) =
     (if c = BACKSLASH then
        (case cs of
           [] \<Rightarrow> None
         | d # ds \<Rightarrow> if is_alnum d then None else Some (Lit d, ds))
      else if c = CHR ''.'' then Some (AnyChar, cs)
      else if is_meta c then None
      else Some (Lit c, cs))"

lemma parse_atom_shorter: "parse_atom s = Some (a, r) \<Longrightarrow> length r < length s"
  by (cases s) (auto split: if_splits list.splits)

function parse_items :: "string \<Rightarrow> item list option" where
  "parse_items [] = Some []"
| "parse_items (c # cs) =
     (case parse_atom (c # cs) of
        None \<Rightarrow> None
      | Some (a, rest) \<Rightarrow>
          (case rest of
             [] \<Rightarrow> Some [One a]
           | q # rest' \<Rightarrow>
               if q = CHR ''*'' then
                 (case rest' of
                    [] \<Rightarrow> Some [Star a]
                  | q' # _ \<Rightarrow>
                      if q' \<in> set ''*+?{'' then None
                      else map_option ((#) (Star a)) (parse_items rest'))
               else map_option ((#) (One a)) (parse_items rest)))"
  by pat_completeness auto
termination
  by (relation "measure length") (auto dest!: parse_atom_shorter simp del: parse_atom.simps)

fun atom_ok :: "atom \<Rightarrow> char \<Rightarrow> bool" where
  "atom_ok (Lit l) c = (c = l)"
| "atom_ok AnyChar c = (c \<noteq> LF)"

fun match_here :: "item list \<Rightarrow> string \<Rightarrow> bool" where
  "match_here [] s = True"
| "match_here (One a # its) [] = False"
| "match_here (One a # its) (c # cs) = (atom_ok a c \<and> match_here its cs)"
| "match_here (Star a # its) [] = match_here its []"
| "match_here (Star a # its) (c # cs) =
     (match_here its (c # cs) \<or> (atom_ok a c \<and> match_here (Star a # its) cs))"

fun search_items :: "item list \<Rightarrow> string \<Rightarrow> bool" where
  "search_items its [] = match_here its []"
| "search_items its (c # cs) = (match_here its (c # cs) \<or> search_items its cs)"

definition py_compile :: regex_engine where
  "py_compile pattern = map_option search_items (parse_items pattern)"

subsection \<open>filter\_lines and dedent\<close>

text \<open>
  \<^verbatim>\<open>
  def filter_lines(text, exclude_patterns):
      compiled_patterns = [re.compile(pattern) for pattern in exclude_patterns]
      return "\n".join(
          line for line in text.splitlines()
          if not any(pattern.search(line) for pattern in compiled_patterns))

  def dedent(text):
      return "\n".join(line.lstrip() for line in text.splitlines())
  \<close>
  Compiling the patterns comes first: one pattern that does not compile raises before
  any line is looked at (\<open>None\<close>).
\<close>

fun compile_all :: "regex_engine \<Rightarrow> string list \<Rightarrow> matcher list option" where
  "compile_all eng [] = Some []"
| "compile_all eng (p # ps) =
     (case eng p of
        None \<Rightarrow> None
      | Some m \<Rightarrow> map_option ((#) m) (compile_all eng ps))"

definition filter_lines :: "regex_engine \<Rightarrow> string \<Rightarrow> string list \<Rightarrow> string option" where
  "filter_lines eng text exclude_patterns =
     (case compile_all eng exclude_patterns of
        None \<Rightarrow> None
      | Some compiled_patterns \<Rightarrow>
          Some (join_lines
                  (filter (\<lambda>line. \<not> (\<exists>m \<in> set compiled_patterns. m line))
                     (splitlines text))))"

definition dedent :: "string \<Rightarrow> string" where
  "dedent text = join_lines (map lstrip (splitlines text))"

section \<open>Session layer (helpers/ssh\_manager.py)\<close>

subsection \<open>Errors, the executor object and its environment\<close>

datatype conn_fault = RetriesExhausted | SocketFault

datatype error =
    ValueError string
  | ConnectionError conn_fault string
  | TimeoutError
  | FileNotFoundError
  | OSError
  | ReError
  | Uncaught string

text \<open>
  \<open>ConnectionError\<close> carries which of the two \<open>raise\<close> statements of \<open>connect\<close>
  made it and its cause (\<open>from e\<close>); \<open>ReError\<close> is \<open>re.error\<close>; \<open>Uncaught\<close> is an
  exception of the transport that no \<open>except\<close> clause of \<open>connect\<close> names.

  The fields of \<open>self\<close>. A channel or client object is held by its state: whether the
  channel is closed and whether its transport is active.
\<close>

record chan =
  closed :: bool
  chan_active :: bool

record executor =
  host :: string
  port :: int
  username :: string
  password :: "string option"
  key_filename :: "string option"
  ciphers :: "string list"
  hostname :: "string option"
  commands_file :: "string option"
  client :: "bool option"
  channel :: "chan option"

text \<open>
  \<open>client self = Some a\<close>: there is a client object and \<open>a\<close> tells whether its
  transport exists and is active.

  What \<open>client.connect\<close> does on one attempt, and the credential it is called with.
\<close>

datatype conn_outcome = Connected | AuthFailure string | SocketError string | OtherError string

datatype credential = KeyFile string | Password "string option"

text \<open>
  The environment. \<open>net\<close> answers the attempts of \<open>client.connect\<close>;
  \<open>attempts\<close> and \<open>slept\<close> log the attempts made and the delays slept by \<open>connect\<close>;
  \<open>chan_in\<close> answers the polls of the channel, one entry per call of
  \<open>recv_ready()\<close>: \<open>None\<close> when no data is ready, \<open>Some chunk\<close> when the following
  \<open>recv(4096)\<close> gives \<open>chunk\<close> (already decoded); \<open>clock\<close> holds the readings of
  \<open>time.time()\<close>, one per call; \<open>sent\<close> logs \<open>channel.send\<close>; \<open>data_dir\<close> is
  \<open>config.general.get("data_dir")\<close>; \<open>outfile\<close> holds what was appended to the
  output file of the device; \<open>files\<close> maps the path of a regular file to its lines, or
  to \<open>None\<close> when it cannot be opened. \<open>time.sleep\<close> and \<open>select\<close> in the polling
  loops and in the teardown only let time pass, which the clock readings stand for.
  A loop that needs a poll or a clock reading the environment does not hold gives
  \<open>None\<close>: the script of the environment was too short to see the call return.
\<close>

record env =
  net :: "credential \<Rightarrow> int \<Rightarrow> conn_outcome"
  attempts :: "int list"
  slept :: "int list"
  chan_in :: "string option list"
  clock :: "int list"
  sent :: "string list"
  data_dir :: "string option"
  outfile :: "string list"
  files :: "string \<rightharpoonup> string list option"

text \<open>Truth value of an \<open>Optional[str]\<close>: \<open>None\<close> and the empty string are false.\<close>

definition truthy :: "string option \<Rightarrow> bool" where
  "truthy v = (case v of None \<Rightarrow> False | Some s \<Rightarrow> s \<noteq> [])"

subsection \<open>\_\_init\_\_\<close>

text \<open>
  \<^verbatim>\<open>
  self.ciphers = ciphers or ("aes128-ctr", "aes192-ctr", "aes256-ctr")
  ...
  self.client = None
  self.channel = None
  if not self.password and not self.key_filename:
      raise ValueError("You must provide either the password or ...")
  \<close>
\<close>

definition default_ciphers :: "string list" where
  "default_ciphers = [''aes128-ctr'', ''aes192-ctr'', ''aes256-ctr'']"

definition init ::
  "string \<Rightarrow> int \<Rightarrow> string \<Rightarrow> string option \<Rightarrow> string option \<Rightarrow> string list option \<Rightarrow>
   string option \<Rightarrow> string option \<Rightarrow> error + executor" where
  "init h p u pw key cs hn cf =
     (if \<not> truthy pw \<and> \<not> truthy key
      then Inl (ValueError ''You must provide either the password or the path to the key file for authentication.'')
      else Inr \<lparr>host = h, port = p, username = u, password = pw, key_filename = key,
                ciphers = (case cs of None \<Rightarrow> default_ciphers
                           | Some l \<Rightarrow> if l = [] then default_ciphers else l),
                hostname = hn, commands_file = cf, client = None, channel = None\<rparr>)"

subsection \<open>connect\<close>

text \<open>
  \<^verbatim>\<open>
  self.client = paramiko.SSHClient()
  ...
  for attempt in range(1, retries + 1):
      try:
          if self.key_filename: self.client.connect(..., key_filename=self.key_filename, ...)
          else:                 self.client.connect(..., password=self.password, ...)
          return
      except (paramiko.AuthenticationException, paramiko.SSHException) as e:
          if attempt < retries: time.sleep(delay)
          else: raise ConnectionError(...) from e
      except socket.error as e:
          raise ConnectionError(...) from e
  \<close>
  The loop runs over \<open>range(1, retries + 1)\<close>, the list \<open>[1..retries]\<close>; when it is
  empty, or ends otherwise, \<open>connect\<close> returns without a connection.
  The client field records whether a call of \<open>client.connect\<close> has returned:
  \<open>Some True\<close> after a successful attempt, \<open>Some False\<close> otherwise; what a failed
  attempt leaves of its transport is not followed. \<open>time.sleep(delay)\<close> is taken with a
  delay that is not negative.
\<close>

definition credential_of :: "executor \<Rightarrow> credential" where
  "credential_of self =
     (case key_filename self of
        None \<Rightarrow> Password (password self)
      | Some k \<Rightarrow> if k \<noteq> [] then KeyFile k else Password (password self))"

fun connect_loop ::
  "int \<Rightarrow> int \<Rightarrow> int list \<Rightarrow> executor \<Rightarrow> env \<Rightarrow> (error + unit) \<times> executor \<times> env" where
  "connect_loop retries delay [] self e = (Inr (), self, e)"
| "connect_loop retries delay (attempt # rest) self e =
     (let e1 = e\<lparr>attempts := attempts e @ [attempt]\<rparr> in
      case net e (credential_of self) attempt of
        Connected \<Rightarrow> (Inr (), self\<lparr>client := Some True\<rparr>, e1)
      | AuthFailure cause \<Rightarrow>
          if attempt < retries
          then connect_loop retries delay rest self (e1\<lparr>slept := slept e1 @ [delay]\<rparr>)
          else (Inl (ConnectionError RetriesExhausted cause), self, e1)
      | SocketError cause \<Rightarrow> (Inl (ConnectionError SocketFault cause), self, e1)
      | OtherError cause \<Rightarrow> (Inl (Uncaught cause), self, e1))"

definition connect ::
  "int \<Rightarrow> int \<Rightarrow> executor \<Rightarrow> env \<Rightarrow> (error + unit) \<times> executor \<times> env" where
  "connect retries delay self e =
     connect_loop retries delay [1..retries] (self\<lparr>client := Some False\<rparr>) e"

subsection \<open>wait\_for\_prompt\<close>

text \<open>
  \<^verbatim>\<open>
  start_time = time.time()
  while time.time() - start_time < timeout:
      if self.channel.recv_ready():
          chunk = self.channel.recv(4096).decode("utf-8", errors="ignore")
          if re.search(prompt, chunk):
              return True
      else:
          r, _, _ = select.select([self.channel], [], [], 1)
          if r: continue
      time.sleep(0.1)
  raise TimeoutError("Prompt not detected within the specified time.")
  \<close>
  Each turn of the loop reads the clock once and polls the channel once. The two
  \<open>except\<close> clauses log and raise again.
\<close>

fun wait_loop ::
  "regex_engine \<Rightarrow> string \<Rightarrow> int \<Rightarrow> int \<Rightarrow> int list \<Rightarrow> string option list \<Rightarrow>
   (error + bool) option \<times> int list \<times> string option list" where
  "wait_loop eng prompt start timeout [] chn = (None, [], chn)"
| "wait_loop eng prompt start timeout (now # clk) chn =
     (if now - start < timeout then
        (case chn of
           [] \<Rightarrow> (None, clk, [])
         | None # chn' \<Rightarrow> wait_loop eng prompt start timeout clk chn'
         | Some chunk # chn' \<Rightarrow>
             (case re_search eng prompt chunk of
                None \<Rightarrow> (Some (Inl ReError), clk, chn')
              | Some found \<Rightarrow>
                  if found then (Some (Inr True), clk, chn')
                  else wait_loop eng prompt start timeout clk chn'))
      else (Some (Inl TimeoutError), clk, chn))"

definition wait_for_prompt ::
  "regex_engine \<Rightarrow> executor \<Rightarrow> string \<Rightarrow> int \<Rightarrow> env \<Rightarrow> (error + bool) option \<times> env" where
  "wait_for_prompt eng self prompt timeout e =
     (case channel self of
        None \<Rightarrow> (Some (Inl (ValueError ''The SSH channel is not initialized.'')), e)
      | Some ch \<Rightarrow>
          if \<not> chan_active ch
          then (Some (Inl (ValueError ''The SSH channel is not active.'')), e)
          else (case clock e of
                  [] \<Rightarrow> (None, e)
                | start_time # clk \<Rightarrow>
                    (case wait_loop eng prompt start_time timeout clk (chan_in e) of
                       (r, clk', chn') \<Rightarrow> (r, e\<lparr>clock := clk', chan_in := chn'\<rparr>))))"

subsection \<open>execute\_command\<close>

text \<open>
  \<^verbatim>\<open>
  self.channel.send(f"{cmd}\n")
  result = ""
  start_time = time.time()
  while True:
      if self.channel.recv_ready():
          chunk = self.channel.recv(4096).decode("utf-8", errors="ignore")
          if "--More--" in chunk:
              self.channel.send(" ")
              chunk = chunk.replace("--More--", "")
          if "(END)" in chunk:
              self.channel.send("q")
              chunk = chunk.replace("(END)", "")
          result += clean(chunk)
      if re.search(prompt, result):
          break
      if time.time() - start_time > timeout:
          raise TimeoutError("Prompt not detected within the time limit.")
  filtered_output = filter_lines(result, [cmd, prompt])
  dedented_output = dedent(filtered_output)
  if to_file:
      self.log_output_to_file(dedented_output)
  return dedented_output
  \<close>
  \<open>keystrokes chunk\<close> is what the pagination handling sends for one chunk and
  \<open>strip_markers chunk\<close> is the chunk it hands to \<open>clean\<close>.
\<close>

definition more_marker :: string where "more_marker = ''--More--''"
definition end_marker :: string where "end_marker = ''(END)''"

definition strip_more :: "string \<Rightarrow> string" where
  "strip_more chunk = (if contains more_marker chunk then remove_all more_marker chunk else chunk)"

definition strip_markers :: "string \<Rightarrow> string" where
  "strip_markers chunk =
     (let c1 = strip_more chunk
      in if contains end_marker c1 then remove_all end_marker c1 else c1)"

definition keystrokes :: "string \<Rightarrow> string list" where
  "keystrokes chunk =
     (if contains more_marker chunk then ['' ''] else []) @
     (if contains end_marker (strip_more chunk) then [''q''] else [])"

fun exec_loop ::
  "regex_engine \<Rightarrow> string \<Rightarrow> int \<Rightarrow> int \<Rightarrow> string \<Rightarrow> string list \<Rightarrow> string option list \<Rightarrow>
   int list \<Rightarrow> (error + string) option \<times> string list \<times> string option list \<times> int list" where
  "exec_loop eng prompt start timeout result snt [] clk = (None, snt, [], clk)"
| "exec_loop eng prompt start timeout result snt (poll # chn) clk =
     (let result' = (case poll of None \<Rightarrow> result
                     | Some chunk \<Rightarrow> result @ clean (strip_markers chunk));
          snt' = (case poll of None \<Rightarrow> snt | Some chunk \<Rightarrow> snt @ keystrokes chunk)
      in case re_search eng prompt result' of
           None \<Rightarrow> (Some (Inl ReError), snt', chn, clk)
         | Some found \<Rightarrow>
             if found then (Some (Inr result'), snt', chn, clk)
             else (case clk of
                     [] \<Rightarrow> (None, snt', chn, [])
                   | now # clk' \<Rightarrow>
                       if now - start > timeout
                       then (Some (Inl TimeoutError), snt', chn, clk')
                       else exec_loop eng prompt start timeout result' snt' chn clk'))"

text \<open>
  \<^verbatim>\<open>
  def log_output_to_file(self, output):
      try:
          data_dir = config.general.get("data_dir")
          if not data_dir:
              raise ValueError("Data directory not specified in the configuration.")
          ...
          with open(filename, "a", encoding="utf-8") as file:
              file.write(output + "\n")
      except Exception as e:
          logger.error(...)
          raise
  \<close>
  Creating the directory and appending to the file are taken to succeed.
\<close>

definition log_output_to_file :: "string \<Rightarrow> env \<Rightarrow> (error + unit) \<times> env" where
  "log_output_to_file output e =
     (if \<not> truthy (data_dir e)
      then (Inl (ValueError ''Data directory not specified in the configuration.''), e)
      else (Inr (), e\<lparr>outfile := outfile e @ [output @ [LF]]\<rparr>))"

definition execute_command ::
  "regex_engine \<Rightarrow> executor \<Rightarrow> string \<Rightarrow> string \<Rightarrow> bool \<Rightarrow> int \<Rightarrow> env \<Rightarrow>
   (error + string) option \<times> env" where
  "execute_command eng self cmd prompt to_file timeout e =
     (if channel self = None
      then (Some (Inl (ValueError ''Interactive terminal is not initialized.'')), e)
      else
        let e1 = e\<lparr>sent := sent e @ [cmd @ [LF]]\<rparr> in
        case clock e1 of
          [] \<Rightarrow> (None, e1)
        | start_time # clk \<Rightarrow>
            (case exec_loop eng prompt start_time timeout [] (sent e1) (chan_in e1) clk of
               (r, snt, chn, clk') \<Rightarrow>
                 let e2 = e1\<lparr>sent := snt, chan_in := chn, clock := clk'\<rparr> in
                 (case r of
                    None \<Rightarrow> (None, e2)
                  | Some (Inl err) \<Rightarrow> (Some (Inl err), e2)
                  | Some (Inr result) \<Rightarrow>
                      (case filter_lines eng result [cmd, prompt] of
                         None \<Rightarrow> (Some (Inl ReError), e2)
                       | Some filtered_output \<Rightarrow>
                           let dedented_output = dedent filtered_output in
                           if to_file then
                             (case log_output_to_file dedented_output e2 of
                                (Inl err, e3) \<Rightarrow> (Some (Inl err), e3)
                              | (Inr u, e3) \<Rightarrow> (Some (Inr dedented_output), e3))
                           else (Some (Inr dedented_output), e2)))))"

subsection \<open>confirm\_close\<close>

text \<open>
  \<^verbatim>\<open>
  if self.channel:
      if self.channel.closed: ...
      else: self.channel.close(); time.sleep(0.5); ...
  if self.client:
      transport = self.client.get_transport()
      if not transport or not transport.is_active(): ...
      else: self.client.close(); time.sleep(0.5); ...
  \<close>
  The remaining branches only log. \<open>channel.close()\<close> marks the channel closed and
  \<open>client.close()\<close> leaves the client without an active transport; that transport is
  the one the channel runs on, so the channel's transport is no longer active either.
\<close>

definition confirm_close :: "executor \<Rightarrow> executor" where
  "confirm_close self =
     self\<lparr>channel := (case channel self of
                         None \<Rightarrow> None
                       | Some ch \<Rightarrow>
                           Some (ch\<lparr>closed := True,
                                   chan_active := chan_active ch \<and> client self \<noteq> Some True\<rparr>)),
           client := (case client self of
                        None \<Rightarrow> None
                      | Some a \<Rightarrow> if \<not> a then Some a else Some False)\<rparr>"

definition released :: "executor \<Rightarrow> bool" where
  "released self \<longleftrightarrow>
     (case channel self of None \<Rightarrow> True | Some ch \<Rightarrow> closed ch) \<and>
     (case client self of None \<Rightarrow> True | Some a \<Rightarrow> \<not> a)"

subsection \<open>execute\_commands\_from\_file\<close>

text \<open>
  \<^verbatim>\<open>
  if not self.commands_file:
      raise ValueError("No commands file specified.")
  if not os.path.isfile(self.commands_file):
      raise FileNotFoundError(...)
  try:
      with open(self.commands_file, "r", encoding="utf-8") as file:
          commands = file.readlines()
      for cmd in commands:
          cmd = cmd.strip()
          if cmd:
              self.execute_command(cmd, prompt, to_file, timeout)
  except Exception as e:
      logger.error(...)
      raise
  finally:
      self.confirm_close()
  \<close>
\<close>

fun run_commands ::
  "regex_engine \<Rightarrow> executor \<Rightarrow> string \<Rightarrow> bool \<Rightarrow> int \<Rightarrow> string list \<Rightarrow> env \<Rightarrow>
   (error + unit) option \<times> env" where
  "run_commands eng self prompt to_file timeout [] e = (Some (Inr ()), e)"
| "run_commands eng self prompt to_file timeout (line # rest) e =
     (let cmd = strip line in
      if cmd \<noteq> [] then
        (case execute_command eng self cmd prompt to_file timeout e of
           (None, e') \<Rightarrow> (None, e')
         | (Some (Inl err), e') \<Rightarrow> (Some (Inl err), e')
         | (Some (Inr out), e') \<Rightarrow> run_commands eng self prompt to_file timeout rest e')
      else run_commands eng self prompt to_file timeout rest e)"

definition execute_commands_from_file ::
  "regex_engine \<Rightarrow> string \<Rightarrow> bool \<Rightarrow> int \<Rightarrow> executor \<Rightarrow> env \<Rightarrow>
   (error + unit) option \<times> executor \<times> env" where
  "execute_commands_from_file eng prompt to_file timeout self e =
     (case commands_file self of
        None \<Rightarrow> (Some (Inl (ValueError ''No commands file specified.'')), self, e)
      | Some path \<Rightarrow>
          if path = [] then (Some (Inl (ValueError ''No commands file specified.'')), self, e)
          else
            (case files e path of
               None \<Rightarrow> (Some (Inl FileNotFoundError), self, e)
             | Some None \<Rightarrow> (Some (Inl OSError), confirm_close self, e)
             | Some (Some commands) \<Rightarrow>
                 (case run_commands eng self prompt to_file timeout commands e of
                    (None, e') \<Rightarrow> (None, self, e')
                  | (Some r, e') \<Rightarrow> (Some r, confirm_close self, e'))))"

subsection \<open>An example session\<close>

text \<open>A device record with a password, an open shell, and an environment to start from.\<close>

definition example_self :: executor where
  "example_self =
     \<lparr>host = ''192.0.2.10'', port = 22, username = ''admin'', password = Some ''secret'',
      key_filename = None, ciphers = default_ciphers, hostname = Some ''router1'',
      commands_file = Some ''commands.txt'', client = Some True,
      channel = Some \<lparr>closed = False, chan_active = True\<rparr>\<rparr>"

definition example_env :: env where
  "example_env =
     \<lparr>net = (\<lambda>cred attempt. Connected), attempts = [], slept = [], chan_in = [], clock = [],
      sent = [], data_dir = Some ''data'', outfile = [], files = Map.empty\<rparr>"

text \<open>The prompt of main.py, \<^verbatim>\<open>r"\:\~\$"\<close>, and a shorter one, \<^verbatim>\<open>r"\$"\<close>.\<close>

definition main_prompt :: string where
  "main_prompt = [BACKSLASH, CHR '':'', BACKSLASH, CHR ''~'', BACKSLASH, CHR ''$'']"

definition dollar_prompt :: string where
  "dollar_prompt = [BACKSLASH, CHR ''$'']"

subsection \<open>Notions the statements use\<close>

text \<open>
  The chunks among a sequence of polls, in order; and the number of occurrences of a
  text found from the left without overlap (\<open>str.count\<close>).
\<close>

fun received :: "string option list \<Rightarrow> string list" where
  "received [] = []"
| "received (None # polls) = received polls"
| "received (Some chunk # polls) = chunk # received polls"

text \<open>
  The normalization, chunk by chunk, of the chunks among a sequence of polls: each chunk
  alone loses its pagination markers and is cleaned, and the results are put end to end.
\<close>

definition normalized :: "string option list \<Rightarrow> string" where
  "normalized polls = concat (map (\<lambda>chunk. clean (strip_markers chunk)) (received polls))"

function occurrences :: "string \<Rightarrow> string \<Rightarrow> nat" where
  "occurrences sub [] = 0"
| "occurrences sub (c # cs) =
     (if sub \<noteq> [] \<and> prefix sub (c # cs)
      then Suc (occurrences sub (drop (length sub) (c # cs)))
      else occurrences sub cs)"
  by pat_completeness auto
termination
  by (relation "measure (\<lambda>(sub, s). length s)") auto

text \<open>
  Three environments: one chunk that holds the pager marker twice; the pager marker
  split over two chunks; a script of two commands on a channel that stays silent.
\<close>

definition paged_env :: env where
  "paged_env = example_env\<lparr>clock := [0, 1],
     chan_in := [Some (''show log'' @ [LF] @ ''a--More--b--More--c'' @ [LF] @ ''$ '')]\<rparr>"

definition split_marker_env :: env where
  "split_marker_env = example_env\<lparr>clock := [0, 1, 2],
     chan_in := [Some (''show log'' @ [LF] @ ''line1'' @ [LF] @ ''--Mo''),
                 Some (''re--'' @ [LF] @ ''$ '')]\<rparr>"

definition script_env :: env where
  "script_env = example_env\<lparr>
     files := [''commands.txt'' \<mapsto> Some [''show version'' @ [LF], [LF], ''show log'' @ [LF]]],
     clock := [0, 10, 40], chan_in := [None, None, None]\<rparr>"

section \<open>The output normalizer\<close>

subsection \<open>\<open>match_csi\<close> is the pattern of strip\_ansi\<close>

lemma dropWhile_split: "\<exists>ps. xs = ps @ dropWhile P xs \<and> (\<forall>c\<in>set ps. P c)"
  by (metis takeWhile_dropWhile_id set_takeWhileD)

lemma dropWhile_append_all: "\<forall>c\<in>set ps. P c \<Longrightarrow> dropWhile P (ps @ xs) = dropWhile P xs"
  by (induction ps) auto

lemma classes_disjoint:
  "is_param c \<Longrightarrow> \<not> is_inter c" "is_param c \<Longrightarrow> \<not> is_final c" "is_inter c \<Longrightarrow> \<not> is_final c"
  by (auto simp: is_param_def is_inter_def is_final_def)

lemma match_csi_sound:
  assumes "match_csi s = Some r"
  shows "\<exists>m \<in> csi_lang. s = m @ r"
proof (cases s rule: match_csi.cases)
  case (1 e b rest)
  let ?d1 = "dropWhile is_param rest"
  let ?d = "dropWhile is_inter ?d1"
  from assms 1 obtain f where d: "?d = f # r" and f: "is_final f"
    and e: "e = ESC" "b = CHR ''[''"
    by (auto split: if_splits list.splits)
  obtain ps where ps: "rest = ps @ ?d1" "\<forall>c\<in>set ps. is_param c"
    using dropWhile_split[of rest is_param] by auto
  obtain ins where ins: "?d1 = ins @ ?d" "\<forall>c\<in>set ins. is_inter c"
    using dropWhile_split[of ?d1 is_inter] by auto
  have "s = (ESC # CHR ''['' # ps @ ins @ [f]) @ r"
    using 1 e ps(1) ins(1) d by simp
  moreover have "ESC # CHR ''['' # ps @ ins @ [f] \<in> csi_lang"
    unfolding csi_lang_def using ps(2) ins(2) f by blast
  ultimately show ?thesis by blast
qed (use assms in simp_all)

lemma match_csi_complete:
  assumes "m \<in> csi_lang"
  shows "match_csi (m @ r) = Some r"
proof -
  from assms obtain ps ins f where m: "m = ESC # CHR ''['' # ps @ ins @ [f]"
    and ps: "\<forall>c \<in> set ps. is_param c" and ins: "\<forall>c \<in> set ins. is_inter c"
    and f: "is_final f"
    unfolding csi_lang_def by blast
  have 1: "dropWhile is_param (ps @ ins @ f # r) = ins @ f # r"
  proof -
    have "dropWhile is_param (ps @ ins @ f # r) = dropWhile is_param (ins @ f # r)"
      using ps by (rule dropWhile_append_all)
    also have "\<dots> = ins @ f # r"
      using ins f classes_disjoint by (cases ins) auto
    finally show ?thesis .
  qed
  have 2: "dropWhile is_inter (ins @ f # r) = f # r"
  proof -
    have "dropWhile is_inter (ins @ f # r) = dropWhile is_inter (f # r)"
      using ins by (rule dropWhile_append_all)
    then show ?thesis using f classes_disjoint by auto
  qed
  show ?thesis using m 1 2 f by simp
qed

lemma match_csi_iff: "match_csi s = Some r \<longleftrightarrow> (\<exists>m \<in> csi_lang. s = m @ r)"
  using match_csi_sound match_csi_complete by blast

lemma csi_prefix_unique:
  assumes "m \<in> csi_lang" "m' \<in> csi_lang" "m @ r = m' @ r'"
  shows "m = m'"
proof -
  have "match_csi (m @ r) = Some r" using assms(1) by (rule match_csi_complete)
  moreover have "match_csi (m' @ r') = Some r'" using assms(2) by (rule match_csi_complete)
  ultimately have "r = r'" using assms(3) by simp
  with assms(3) show ?thesis by simp
qed

subsection \<open>Idempotence of strip\_ansi\<close>

lemma strip_ansi_no_esc: "ESC \<notin> set y \<Longrightarrow> strip_ansi y = y"
proof (induction y)
  case Nil
  show ?case by simp
next
  case (Cons c cs)
  then have "match_csi (c # cs) = None" by (cases cs) auto
  with Cons show ?case by simp
qed

lemma match_csi_suffix:
  assumes "match_csi s = Some r"
  shows "suffix r s"
proof (cases s rule: match_csi.cases)
  case (1 e b rest)
  let ?d = "dropWhile is_inter (dropWhile is_param rest)"
  from assms 1 obtain f where d: "?d = f # r"
    by (auto split: if_splits list.splits)
  have "suffix ?d rest"
    by (meson suffix_dropWhile suffix_order.trans)
  with d have "suffix r rest"
    by (metis suffix_ConsD)
  with 1 show ?thesis by (simp add: suffix_Cons)
qed (use assms in simp_all)

lemma escapes_complete_suffix: "suffix r s \<Longrightarrow> escapes_complete s \<Longrightarrow> escapes_complete r"
  by (induction s) (auto simp: suffix_Cons)

lemma strip_ansi_esc_free: "escapes_complete x \<Longrightarrow> ESC \<notin> set (strip_ansi x)"
proof (induction x rule: strip_ansi.induct)
  case 1
  show ?case by simp
next
  case (2 c cs)
  show ?case
  proof (cases "match_csi (c # cs)")
    case None
    with 2 show ?thesis by auto
  next
    case (Some r)
    with 2 match_csi_suffix[OF Some] escapes_complete_suffix show ?thesis by auto
  qed
qed

text \<open>\<open>has_csi\<close> says that a text contains a complete sequence of the pattern.\<close>

lemma has_csi_iff: "has_csi y \<longleftrightarrow> (\<exists>p m s. m \<in> csi_lang \<and> y = p @ m @ s)"
proof
  show "has_csi y \<Longrightarrow> \<exists>p m s. m \<in> csi_lang \<and> y = p @ m @ s"
  proof (induction y)
    case Nil
    then show ?case by simp
  next
    case (Cons c cs)
    show ?case
    proof (cases "match_csi (c # cs)")
      case (Some r)
      then obtain m where "m \<in> csi_lang" "c # cs = m @ r" using match_csi_sound by blast
      then show ?thesis by (intro exI[of _ "[]"] exI[of _ m] exI[of _ r]) simp
    next
      case None
      with Cons.prems have "has_csi cs" by simp
      from Cons.IH[OF this] obtain p m s where "m \<in> csi_lang" "cs = p @ m @ s" by blast
      then show ?thesis by (intro exI[of _ "c # p"] exI[of _ m] exI[of _ s]) simp
    qed
  qed
next
  assume "\<exists>p m s. m \<in> csi_lang \<and> y = p @ m @ s"
  then obtain p m s where m: "m \<in> csi_lang" and y: "y = p @ m @ s" by blast
  have "has_csi (p @ m @ s)"
  proof (induction p)
    case Nil
    from match_csi_complete[OF m, of s] have k: "match_csi (m @ s) = Some s" .
    then obtain c cs where "m @ s = c # cs" by (cases "m @ s") auto
    with k show ?case by simp
  next
    case (Cons c p)
    then show ?case by simp
  qed
  with y show "has_csi y" by simp
qed

lemma strip_ansi_length: "length (strip_ansi y) \<le> length y"
proof (induction y rule: strip_ansi.induct)
  case 1
  show ?case by simp
next
  case (2 c cs)
  show ?case
  proof (cases "match_csi (c # cs)")
    case None
    with 2 show ?thesis by simp
  next
    case (Some r)
    with 2 match_csi_shorter[OF Some] show ?thesis by simp
  qed
qed

lemma strip_ansi_shrinks: "has_csi y \<Longrightarrow> length (strip_ansi y) < length y"
proof (induction y rule: strip_ansi.induct)
  case 1
  then show ?case by simp
next
  case (2 c cs)
  show ?case
  proof (cases "match_csi (c # cs)")
    case None
    with 2 show ?thesis by simp
  next
    case (Some r)
    have "length (strip_ansi r) \<le> length r" by (rule strip_ansi_length)
    with Some match_csi_shorter[OF Some] show ?thesis by simp
  qed
qed

lemma strip_ansi_fixed: "\<not> has_csi y \<Longrightarrow> strip_ansi y = y"
  by (induction y) auto

lemma strip_ansi_fixed_iff: "strip_ansi y = y \<longleftrightarrow> \<not> has_csi y"
  using strip_ansi_fixed strip_ansi_shrinks by (metis less_irrefl)

lemma esc_free_no_csi: "ESC \<notin> set y \<Longrightarrow> \<not> has_csi y"
proof (induction y)
  case Nil
  show ?case by simp
next
  case (Cons c cs)
  then have "match_csi (c # cs) = None" by (cases cs) auto
  with Cons show ?case by simp
qed

text \<open>
  C8, as stated, fails: strip\_ansi is not idempotent. In ESC ESC [0m [0m the scan
  deletes the sequence that starts at the second ESC, which brings the first ESC and the
  trailing [0m together; a second pass deletes that sequence too.
\<close>

theorem strip_ansi_not_idempotent:
  "strip_ansi (strip_ansi (ESC # ESC # ''[0m[0m'')) \<noteq> strip_ansi (ESC # ESC # ''[0m[0m'')"
  by code_simp

text \<open>
  C8, amended: strip\_ansi is idempotent on a text exactly when its first pass leaves no
  complete escape sequence of the pattern. That is so, in particular, for every text in
  which each ESC starts a complete sequence, and for every text that contains no
  complete sequence (a lone or cut-off ESC included).
\<close>

theorem strip_ansi_idempotent_iff:
  "(strip_ansi (strip_ansi x) = strip_ansi x) = (\<not> has_csi (strip_ansi x)) \<and>
   (escapes_complete x \<longrightarrow> \<not> has_csi (strip_ansi x)) \<and>
   (\<not> has_csi x \<longrightarrow> \<not> has_csi (strip_ansi x))"
  using strip_ansi_fixed_iff[of "strip_ansi x"] strip_ansi_esc_free[of x]
    esc_free_no_csi[of "strip_ansi x"] strip_ansi_fixed[of x]
  by auto

text \<open>
  C8, witness: the example of the specification, ESC [31m RED ESC [0m; a text that ends
  in a lone ESC; a text with a complete sequence and a cut-off one; and the text of the
  counterexample, whose first pass leaves a complete sequence.
\<close>

theorem strip_ansi_idempotent_iff_witness:
  "strip_ansi (strip_ansi (ESC # ''[31mRED'' @ ESC # ''[0m'')) =
     strip_ansi (ESC # ''[31mRED'' @ ESC # ''[0m'') \<and>
   strip_ansi (ESC # ''[31mRED'' @ ESC # ''[0m'') = ''RED'' \<and>
   strip_ansi (strip_ansi (''abc'' @ [ESC])) = strip_ansi (''abc'' @ [ESC]) \<and>
   strip_ansi (strip_ansi (ESC # ''[31mRED'' @ ESC # ''[3'')) =
     strip_ansi (ESC # ''[31mRED'' @ ESC # ''[3'') \<and>
   strip_ansi (strip_ansi (ESC # ESC # ''[0m[0m'')) \<noteq> strip_ansi (ESC # ESC # ''[0m[0m'')"
proof -
  have c: "escapes_complete (ESC # ''[31mRED'' @ ESC # ''[0m'')" by code_simp
  have v: "strip_ansi (ESC # ''[31mRED'' @ ESC # ''[0m'') = ''RED''" by code_simp
  have n: "\<not> has_csi (''abc'' @ [ESC])" by code_simp
  have t: "\<not> has_csi (strip_ansi (ESC # ''[31mRED'' @ ESC # ''[3''))" by code_simp
  have b: "has_csi (strip_ansi (ESC # ESC # ''[0m[0m''))" by code_simp
  from strip_ansi_idempotent_iff[of "ESC # ''[31mRED'' @ ESC # ''[0m''"] c
  have 1: "strip_ansi (strip_ansi (ESC # ''[31mRED'' @ ESC # ''[0m'')) =
     strip_ansi (ESC # ''[31mRED'' @ ESC # ''[0m'')" by blast
  from strip_ansi_idempotent_iff[of "''abc'' @ [ESC]"] n
  have 2: "strip_ansi (strip_ansi (''abc'' @ [ESC])) = strip_ansi (''abc'' @ [ESC])" by blast
  from strip_ansi_idempotent_iff[of "ESC # ''[31mRED'' @ ESC # ''[3''"] t
  have 3: "strip_ansi (strip_ansi (ESC # ''[31mRED'' @ ESC # ''[3'')) =
     strip_ansi (ESC # ''[31mRED'' @ ESC # ''[3'')" by blast
  from strip_ansi_idempotent_iff[of "ESC # ESC # ''[0m[0m''"] b
  have 4: "strip_ansi (strip_ansi (ESC # ESC # ''[0m[0m'')) \<noteq> strip_ansi (ESC # ESC # ''[0m[0m'')"
    by blast
  from 1 v 2 3 4 show ?thesis by blast
qed

section \<open>Construction\<close>

text \<open>
  C6, as stated, fails: a password together with a key file is accepted; the only
  guard of the constructor rejects the absence of both.
\<close>

theorem init_accepts_both_credentials:
  "\<not> isl (init ''192.0.2.10'' 22 ''admin'' (Some ''secret'') (Some ''id_rsa'') None None None)
   \<and> truthy (Some ''secret'') \<and> truthy (Some ''id_rsa'')"
  by code_simp

text \<open>
  C6, amended: construction succeeds exactly when at least one of password and key file
  is given and not empty; it fails with ValueError exactly when both are absent or empty.
\<close>

theorem init_succeeds_iff:
  "(\<exists>self. init h p u pw key cs hn cf = Inr self) = (truthy pw \<or> truthy key) \<and>
   (\<exists>msg. init h p u pw key cs hn cf = Inl (ValueError msg)) = (\<not> truthy pw \<and> \<not> truthy key)"
  by (simp add: init_def)

text \<open>C6, witness: a password alone, a key alone, both, and an empty key alone.\<close>

theorem init_succeeds_iff_witness:
  "\<not> isl (init ''192.0.2.10'' 22 ''admin'' (Some ''secret'') None None None None) \<and>
   \<not> isl (init ''192.0.2.10'' 22 ''admin'' None (Some ''id_rsa'') None None None) \<and>
   \<not> isl (init ''192.0.2.10'' 22 ''admin'' (Some ''secret'') (Some ''id_rsa'') None None None) \<and>
   isl (init ''192.0.2.10'' 22 ''admin'' None (Some []) None None None)"
proof -
  have t: "truthy (Some ''secret'')" "truthy (Some ''id_rsa'')" "\<not> truthy None"
    "\<not> truthy (Some [])"
    by (simp_all add: truthy_def)
  show ?thesis
    using init_succeeds_iff[of "''192.0.2.10''" 22 "''admin''" "Some ''secret''" None None None None]
      init_succeeds_iff[of "''192.0.2.10''" 22 "''admin''" None "Some ''id_rsa''" None None None]
      init_succeeds_iff[of "''192.0.2.10''" 22 "''admin''" "Some ''secret''" "Some ''id_rsa''" None None None]
      init_succeeds_iff[of "''192.0.2.10''" 22 "''admin''" None "Some []" None None None]
      t
    by auto
qed

section \<open>connect\<close>

lemma credential_of_client [simp]: "credential_of (self\<lparr>client := c\<rparr>) = credential_of self"
  by (simp add: credential_of_def split: option.splits)

text \<open>
  While the attempts from \<open>i\<close> up to \<open>k - 1\<close> fail authentication and \<open>k\<close> is within
  the retries, the loop makes them, sleeps after each and goes on at attempt \<open>k\<close>.
\<close>

lemma connect_loop_auth_prefix:
  assumes "\<And>j. i \<le> j \<Longrightarrow> j < k \<Longrightarrow> \<exists>c. net e (credential_of self) j = AuthFailure c"
    and "i \<le> k" "k \<le> retries"
  shows "connect_loop retries delay [i..retries] self e =
         connect_loop retries delay [k..retries] self
           (e\<lparr>attempts := attempts e @ [i..k - 1],
              slept := slept e @ replicate (nat (k - i)) delay\<rparr>)"
  using assms
proof (induction "nat (k - i)" arbitrary: i e)
  case 0
  then have "i = k" by simp
  then show ?case by simp
next
  case (Suc n)
  then have lt: "i < k" by linarith
  from Suc.prems(1)[of i] lt obtain c where c: "net e (credential_of self) i = AuthFailure c"
    by auto
  let ?e1 = "e\<lparr>attempts := attempts e @ [i], slept := slept e @ [delay]\<rparr>"
  have step: "connect_loop retries delay [i..retries] self e =
        connect_loop retries delay [i + 1..retries] self ?e1"
    using lt Suc.prems(3) c by (simp add: upto_rec1[of i retries])
  have n: "n = nat (k - (i + 1))" using Suc.hyps(2) by linarith
  have ih: "connect_loop retries delay [i + 1..retries] self ?e1 =
      connect_loop retries delay [k..retries] self
       (?e1\<lparr>attempts := attempts ?e1 @ [i + 1..k - 1],
            slept := slept ?e1 @ replicate (nat (k - (i + 1))) delay\<rparr>)"
  proof (rule Suc.hyps(1)[OF n])
    fix j assume "i + 1 \<le> j" "j < k"
    then show "\<exists>c. net ?e1 (credential_of self) j = AuthFailure c"
      using Suc.prems(1)[of j] by simp
  qed (use lt Suc.prems in simp_all)
  have up: "[i..k - 1] = i # [i + 1..k - 1]" using lt by (simp add: upto_rec1)
  have rp: "replicate (nat (k - i)) delay = delay # replicate (nat (k - (i + 1))) delay"
    using lt by (metis Suc.hyps(2) n replicate_Suc)
  show ?case unfolding step ih by (simp add: up rp)
qed

text \<open>
  C4: when attempt \<open>k\<close> (within the retries, the earlier ones having failed
  authentication) meets a socket error, connect raises ConnectionError for the socket
  fault with that cause; the attempts made are exactly 1 to \<open>k\<close> and the only delays
  slept are the \<open>k - 1\<close> that followed the earlier failures: none follows the socket
  error, however many attempts remain.
\<close>

theorem connect_socket_error_fatal:
  assumes "1 \<le> k" "k \<le> retries"
    and "\<forall>j. 1 \<le> j \<and> j < k \<longrightarrow> (\<exists>c. net e (credential_of self) j = AuthFailure c)"
    and "net e (credential_of self) k = SocketError cause"
  shows "connect retries delay self e =
           (Inl (ConnectionError SocketFault cause),
            self\<lparr>client := Some False\<rparr>,
            e\<lparr>attempts := attempts e @ [1..k],
              slept := slept e @ replicate (nat (k - 1)) delay\<rparr>)"
proof -
  let ?self = "self\<lparr>client := Some False\<rparr>"
  let ?e = "e\<lparr>attempts := attempts e @ [1..k - 1],
              slept := slept e @ replicate (nat (k - 1)) delay\<rparr>"
  have "connect_loop retries delay [1..retries] ?self e =
        connect_loop retries delay [k..retries] ?self ?e"
    using assms by (intro connect_loop_auth_prefix) auto
  moreover have "[k..retries] = k # [k + 1..retries]" using assms(2) by (simp add: upto_rec1)
  moreover have "[1..k] = [1..k - 1] @ [k]" using assms(1) by (simp add: upto_rec2)
  ultimately show ?thesis using assms(4) by (simp add: connect_def)
qed

text \<open>
  C4, witness: five retries; the first attempt fails authentication, the second meets a
  socket error. Two attempts are made and one delay is slept.
\<close>

theorem connect_socket_error_fatal_witness:
  "connect 5 3 example_self
     (example_env\<lparr>net := (\<lambda>cred j. if j = 1 then AuthFailure ''denied''
                                    else SocketError ''unreachable'')\<rparr>) =
   (Inl (ConnectionError SocketFault ''unreachable''),
    example_self\<lparr>client := Some False\<rparr>,
    example_env\<lparr>net := (\<lambda>cred j. if j = 1 then AuthFailure ''denied''
                                   else SocketError ''unreachable''),
               attempts := [1, 2], slept := [3]\<rparr>)"
proof -
  have up: "[1..2::int] = [1, 2]" by code_simp
  show ?thesis
    using connect_socket_error_fatal[of 2 5
        "example_env\<lparr>net := (\<lambda>cred j. if j = 1 then AuthFailure ''denied''
                                       else SocketError ''unreachable'')\<rparr>"
        example_self "''unreachable''" 3]
    by (simp add: example_env_def up)
qed

text \<open>
  C5: for \<open>n \<ge> 1\<close> retries. If every attempt from 1 to \<open>n\<close> fails authentication,
  connect makes exactly the attempts 1 to \<open>n\<close>, sleeps the delay \<open>n - 1\<close> times and
  raises ConnectionError with the cause of the last attempt. If the first \<open>k < n\<close>
  attempts fail authentication and attempt \<open>k + 1\<close> connects, connect returns with an
  active client after exactly the attempts 1 to \<open>k + 1\<close>.
\<close>

theorem connect_retry_counts:
  assumes "1 \<le> n"
  shows "((\<forall>j. 1 \<le> j \<and> j \<le> n \<longrightarrow> net e (credential_of self) j = AuthFailure (causes j)) \<longrightarrow>
            connect n delay self e =
              (Inl (ConnectionError RetriesExhausted (causes n)),
               self\<lparr>client := Some False\<rparr>,
               e\<lparr>attempts := attempts e @ [1..n],
                 slept := slept e @ replicate (nat (n - 1)) delay\<rparr>))
       \<and> (\<forall>k. 0 \<le> k \<and> k < n
              \<and> (\<forall>j. 1 \<le> j \<and> j \<le> k \<longrightarrow> net e (credential_of self) j = AuthFailure (causes j))
              \<and> net e (credential_of self) (k + 1) = Connected \<longrightarrow>
            connect n delay self e =
              (Inr (),
               self\<lparr>client := Some True\<rparr>,
               e\<lparr>attempts := attempts e @ [1..k + 1],
                 slept := slept e @ replicate (nat k) delay\<rparr>))"
proof (intro conjI impI allI)
  assume a: "\<forall>j. 1 \<le> j \<and> j \<le> n \<longrightarrow> net e (credential_of self) j = AuthFailure (causes j)"
  let ?self = "self\<lparr>client := Some False\<rparr>"
  let ?e = "e\<lparr>attempts := attempts e @ [1..n - 1],
              slept := slept e @ replicate (nat (n - 1)) delay\<rparr>"
  have "connect_loop n delay [1..n] ?self e = connect_loop n delay [n..n] ?self ?e"
    using assms a by (intro connect_loop_auth_prefix) auto
  moreover have "[1..n] = [1..n - 1] @ [n]" using assms by (simp add: upto_rec2)
  moreover have "net e (credential_of self) n = AuthFailure (causes n)" using a assms by simp
  ultimately show "connect n delay self e =
              (Inl (ConnectionError RetriesExhausted (causes n)), ?self,
               e\<lparr>attempts := attempts e @ [1..n],
                 slept := slept e @ replicate (nat (n - 1)) delay\<rparr>)"
    by (simp add: connect_def)
next
  fix k
  assume h: "0 \<le> k \<and> k < n
              \<and> (\<forall>j. 1 \<le> j \<and> j \<le> k \<longrightarrow> net e (credential_of self) j = AuthFailure (causes j))
              \<and> net e (credential_of self) (k + 1) = Connected"
  let ?self = "self\<lparr>client := Some False\<rparr>"
  have "connect_loop n delay [1..n] ?self e = connect_loop n delay [k + 1..n] ?self
      (e\<lparr>attempts := attempts e @ [1..(k + 1) - 1],
         slept := slept e @ replicate (nat ((k + 1) - 1)) delay\<rparr>)"
    using h by (intro connect_loop_auth_prefix) auto
  moreover have "[k + 1..n] = (k + 1) # [k + 1 + 1..n]"
    using h upto_rec1[of "k + 1" n] by simp
  moreover have "[1..k + 1] = [1..k] @ [k + 1]" using h by (simp add: upto_rec2)
  ultimately show "connect n delay self e =
              (Inr (), self\<lparr>client := Some True\<rparr>,
               e\<lparr>attempts := attempts e @ [1..k + 1],
                 slept := slept e @ replicate (nat k) delay\<rparr>)"
    using h by (simp add: connect_def)
qed

text \<open>
  C5, witness: three retries. With a transport that always fails authentication,
  connect raises after the attempts 1, 2, 3 and two delays; with one that fails twice and
  then connects, it returns after the attempts 1, 2, 3.
\<close>

theorem connect_retry_counts_witness:
  "connect 3 3 example_self (example_env\<lparr>net := (\<lambda>cred j. AuthFailure ''denied'')\<rparr>) =
     (Inl (ConnectionError RetriesExhausted ''denied''),
      example_self\<lparr>client := Some False\<rparr>,
      example_env\<lparr>net := (\<lambda>cred j. AuthFailure ''denied''),
                 attempts := [1, 2, 3], slept := [3, 3]\<rparr>) \<and>
   connect 3 3 example_self
     (example_env\<lparr>net := (\<lambda>cred j. if j \<le> 2 then AuthFailure ''denied'' else Connected)\<rparr>) =
     (Inr (),
      example_self\<lparr>client := Some True\<rparr>,
      example_env\<lparr>net := (\<lambda>cred j. if j \<le> 2 then AuthFailure ''denied'' else Connected),
                 attempts := [1, 2, 3], slept := [3, 3]\<rparr>)"
proof -
  let ?fail = "example_env\<lparr>net := (\<lambda>cred j. AuthFailure ''denied'')\<rparr>"
  let ?late = "example_env\<lparr>net := (\<lambda>cred j. if j \<le> 2 then AuthFailure ''denied''
                                         else Connected)\<rparr>"
  have le: "(1::int) \<le> 3" by simp
  have r2: "replicate (nat 2) (3::int) = [3, 3]" "replicate 2 (3::int) = [3, 3]"
    by (simp_all add: numeral_2_eq_2)
  have up: "[1..3::int] = [1, 2, 3]" "[1..2 + 1::int] = [1, 2, 3]" by code_simp+
  have a: "connect 3 3 example_self ?fail =
     (Inl (ConnectionError RetriesExhausted ''denied''),
      example_self\<lparr>client := Some False\<rparr>,
      ?fail\<lparr>attempts := [1, 2, 3], slept := [3, 3]\<rparr>)"
    using connect_retry_counts[OF le, of ?fail example_self "\<lambda>j. ''denied''" 3]
    by (simp add: example_env_def r2 up)
  have "0 \<le> (2::int) \<and> (2::int) < 3
        \<and> (\<forall>j. 1 \<le> j \<and> j \<le> 2 \<longrightarrow> net ?late (credential_of example_self) j = AuthFailure ''denied'')
        \<and> net ?late (credential_of example_self) (2 + 1) = Connected"
    by simp
  with connect_retry_counts[OF le, of ?late example_self "\<lambda>j. ''denied''" 3]
  have b: "connect 3 3 example_self ?late =
     (Inr (), example_self\<lparr>client := Some True\<rparr>,
      ?late\<lparr>attempts := attempts ?late @ [1..2 + 1],
            slept := slept ?late @ replicate (nat 2) 3\<rparr>)"
    by blast
  from a b show ?thesis by (simp add: example_env_def r2 up)
qed

section \<open>wait\_for\_prompt\<close>

text \<open>
  C1: the code departs from the claim. wait\_for\_prompt tests the pattern against each
  received chunk alone, not against the accumulated output. Here the prompt of main.py
  arrives split over two chunks and in time; the accumulated output matches, and the
  call still ends in TimeoutError.
\<close>

theorem wait_for_prompt_misses_split_prompt:
  "fst (wait_for_prompt py_compile example_self main_prompt 30
          (example_env\<lparr>clock := [0, 1, 2, 31],
                      chan_in := [Some ''user@host:~'', Some ''$ '']\<rparr>))
     = Some (Inl TimeoutError)
   \<and> re_search py_compile main_prompt (''user@host:~'' @ ''$ '') = Some True"
  by code_simp

section \<open>execute\_command\<close>

text \<open>
  C7: the code departs from the claim. The command is handed to filter\_lines as a
  regular expression, not as literal text: for the command \<^verbatim>\<open>ls *.txt\<close> the pattern
  does not match the echoed line, which stays in the returned text.
\<close>

theorem execute_command_keeps_echo_of_metacharacters:
  "fst (execute_command py_compile example_self ''ls *.txt'' dollar_prompt False 30
          (example_env\<lparr>clock := [0, 1, 2, 31],
                      chan_in := [Some (''ls *.txt'' @ [LF] @ ''notes.txt'' @ [LF] @ ''$ '')]\<rparr>))
     = Some (Inr (''ls *.txt'' @ [LF] @ ''notes.txt''))"
  by code_simp

text \<open>
  What the loop of execute\_command has done when it stops, whatever the outcome: it
  has used up a prefix of the polls, sent the keystrokes of the chunks in that prefix,
  and a buffer it returns is the given one followed by the normalization of each of
  those chunks, and matches the prompt.
\<close>

lemma exec_loop_consumed:
  "exec_loop eng prompt start timeout result snt chn clk = (r, snt', chn', clk') \<Longrightarrow>
     \<exists>used. chn = used @ chn' \<and> (chn \<noteq> [] \<longrightarrow> used \<noteq> []) \<and>
       snt' = snt @ concat (map keystrokes (received used)) \<and>
       (\<forall>buf. r = Some (Inr buf) \<longrightarrow>
          buf = result @ concat (map (\<lambda>chunk. clean (strip_markers chunk)) (received used)) \<and>
          re_search eng prompt buf = Some True)"
proof (induction chn arbitrary: result snt clk)
  case Nil
  then show ?case by auto
next
  case (Cons poll chn)
  let ?result = "case poll of None \<Rightarrow> result
                 | Some chunk \<Rightarrow> result @ clean (strip_markers chunk)"
  let ?snt = "case poll of None \<Rightarrow> snt | Some chunk \<Rightarrow> snt @ keystrokes chunk"
  have one: "snt @ concat (map keystrokes (received [poll])) = ?snt"
    "result @ concat (map (\<lambda>chunk. clean (strip_markers chunk)) (received [poll])) = ?result"
    by (cases poll; simp)+
  consider (err) "re_search eng prompt ?result = None"
    | (found) "re_search eng prompt ?result = Some True"
    | (noclock) "re_search eng prompt ?result = Some False" "clk = []"
    | (late) now clk2 where "re_search eng prompt ?result = Some False"
        "clk = now # clk2" "now - start > timeout"
    | (again) now clk2 where "re_search eng prompt ?result = Some False"
        "clk = now # clk2" "\<not> now - start > timeout"
    by (cases "re_search eng prompt ?result"; cases clk; force)
  then show ?case
  proof cases
    case err
    with Cons.prems one show ?thesis
      by (intro exI[of _ "[poll]"]) (auto simp: Let_def)
  next
    case found
    with Cons.prems one show ?thesis
      by (intro exI[of _ "[poll]"]) (auto simp: Let_def)
  next
    case noclock
    with Cons.prems one show ?thesis
      by (intro exI[of _ "[poll]"]) (auto simp: Let_def)
  next
    case late
    with Cons.prems one show ?thesis
      by (intro exI[of _ "[poll]"]) (auto simp: Let_def)
  next
    case again
    with Cons.prems
    have rec: "exec_loop eng prompt start timeout ?result ?snt chn clk2 = (r, snt', chn', clk')"
      by (simp add: Let_def)
    from Cons.IH[OF rec] obtain used where u: "chn = used @ chn'"
      "snt' = ?snt @ concat (map keystrokes (received used))"
      "\<forall>buf. r = Some (Inr buf) \<longrightarrow>
          buf = ?result @ concat (map (\<lambda>chunk. clean (strip_markers chunk)) (received used)) \<and>
          re_search eng prompt buf = Some True"
      by blast
    show ?thesis
      using u by (intro exI[of _ "poll # used"]) (cases poll; simp)
  qed
qed

lemma execute_command_trace:
  assumes "channel self \<noteq> None"
    and "execute_command eng self cmd prompt to_file timeout e = (r, e')"
  shows "\<exists>used. chan_in e = used @ chan_in e' \<and>
           (clock e \<noteq> [] \<longrightarrow> chan_in e \<noteq> [] \<longrightarrow> used \<noteq> []) \<and>
           sent e' = sent e @ [cmd @ [LF]] @ concat (map keystrokes (received used))"
proof (cases "clock e")
  case Nil
  with assms have "e' = e\<lparr>sent := sent e @ [cmd @ [LF]]\<rparr>"
    by (auto simp: execute_command_def Let_def)
  then show ?thesis using Nil by (intro exI[of _ "[]"]) simp
next
  case (Cons start clk)
  obtain r0 snt chn clk' where L:
    "exec_loop eng prompt start timeout [] (sent e @ [cmd @ [LF]]) (chan_in e) clk
       = (r0, snt, chn, clk')"
    by (metis prod_cases4)
  from exec_loop_consumed[OF L] obtain used where u: "chan_in e = used @ chn"
    "chan_in e \<noteq> [] \<longrightarrow> used \<noteq> []"
    "snt = (sent e @ [cmd @ [LF]]) @ concat (map keystrokes (received used))"
    by blast
  have "chan_in e' = chn \<and> sent e' = snt"
    using assms Cons L
    by (auto simp: execute_command_def Let_def log_output_to_file_def
        split: option.splits sum.splits if_splits prod.splits)
  with u Cons show ?thesis by (intro exI[of _ used]) simp
qed

lemma normalized_Cons: "normalized (p # ps) = normalized [p] @ normalized ps"
  by (cases p) (simp_all add: normalized_def)

lemma normalized_one:
  "result @ normalized [p] =
     (case p of None \<Rightarrow> result | Some chunk \<Rightarrow> result @ clean (strip_markers chunk))"
  by (cases p) (simp_all add: normalized_def)

lemma keystrokes_one:
  "snt @ concat (map keystrokes (received [p])) =
     (case p of None \<Rightarrow> snt | Some chunk \<Rightarrow> snt @ keystrokes chunk)"
  by (cases p) simp_all

lemma received_Cons: "received (p # ps) = received [p] @ received ps"
  by (cases p) simp_all

text \<open>
  The loop at its turn \<open>n\<close> (counted from 0), started with any buffer: the turns before
  tested the buffer of their time, found no prompt and no timeout; turn \<open>n\<close> tests the
  given buffer followed by the normalization of each chunk of the first \<open>n + 1\<close> polls.
\<close>

lemma exec_loop_turn:
  assumes "n < length chn"
    and "\<forall>j<n. re_search eng prompt (result @ normalized (take (Suc j) chn)) = Some False \<and>
                j < length clk \<and> \<not> clk ! j - start > timeout"
  shows "exec_loop eng prompt start timeout result snt chn clk =
     (let buf = result @ normalized (take (Suc n) chn);
          snt' = snt @ concat (map keystrokes (received (take (Suc n) chn)))
      in case re_search eng prompt buf of
           None \<Rightarrow> (Some (Inl ReError), snt', drop (Suc n) chn, drop n clk)
         | Some found \<Rightarrow>
             if found then (Some (Inr buf), snt', drop (Suc n) chn, drop n clk)
             else if length clk \<le> n then (None, snt', drop (Suc n) chn, [])
             else if clk ! n - start > timeout
               then (Some (Inl TimeoutError), snt', drop (Suc n) chn, drop (Suc n) clk)
             else exec_loop eng prompt start timeout buf snt'
                    (drop (Suc n) chn) (drop (Suc n) clk))"
  using assms
proof (induction n arbitrary: result snt chn clk)
  case 0
  then obtain p rest where c: "chn = p # rest" by (cases chn) auto
  show ?case
    unfolding c
    by (cases clk) (auto simp: Let_def normalized_one keystrokes_one split: option.splits)
next
  case (Suc n)
  then obtain p rest where c: "chn = p # rest" by (cases chn) auto
  from Suc.prems(2)
  have z: "re_search eng prompt (result @ normalized (take (Suc 0) chn)) = Some False"
    "0 < length clk" "\<not> clk ! 0 - start > timeout" by auto
  then obtain now clk' where k: "clk = now # clk'" by (cases clk) auto
  let ?r = "result @ normalized [p]"
  let ?s = "snt @ concat (map keystrokes (received [p]))"
  have step: "exec_loop eng prompt start timeout result snt chn clk =
              exec_loop eng prompt start timeout ?r ?s rest clk'"
    using z unfolding c k
    by (simp add: Let_def normalized_one keystrokes_one)
  have n: "n < length rest" using Suc.prems(1) c by simp
  have h: "\<forall>j<n. re_search eng prompt (?r @ normalized (take (Suc j) rest)) = Some False \<and>
                j < length clk' \<and> \<not> clk' ! j - start > timeout"
  proof (intro allI impI)
    fix j assume "j < n"
    then have "Suc j < Suc n" by simp
    with Suc.prems(2)
    have "re_search eng prompt (result @ normalized (take (Suc (Suc j)) chn)) = Some False \<and>
                Suc j < length clk \<and> \<not> clk ! Suc j - start > timeout" by blast
    then show "re_search eng prompt (?r @ normalized (take (Suc j) rest)) = Some False \<and>
                j < length clk' \<and> \<not> clk' ! j - start > timeout"
      unfolding c k using normalized_Cons[of p "take (Suc j) rest"] by simp
  qed
  have e1: "result @ normalized (take (Suc (Suc n)) chn) = ?r @ normalized (take (Suc n) rest)"
    unfolding c using normalized_Cons[of p "take (Suc n) rest"] by simp
  have e2: "snt @ concat (map keystrokes (received (take (Suc (Suc n)) chn))) =
            ?s @ concat (map keystrokes (received (take (Suc n) rest)))"
    unfolding c using received_Cons[of p "take (Suc n) rest"] by simp
  have e3: "drop (Suc (Suc n)) chn = drop (Suc n) rest" "drop (Suc n) clk = drop n clk'"
    "drop (Suc (Suc n)) clk = drop (Suc n) clk'" "(length clk \<le> Suc n) = (length clk' \<le> n)"
    "clk ! Suc n = clk' ! n"
    unfolding c k by simp_all
  show ?case
    unfolding step Suc.IH[OF n h] e1 e2 e3 ..
qed

text \<open>
  C2, as stated, fails: the buffer is built from the normalization of each chunk. With
  the chunks "ab" and backspace "c$" the loop tests and returns "abc$", while the
  normalization of the whole received text is "ac$": the backspace at the start of the
  second chunk finds nothing to remove.
\<close>

theorem exec_buffer_counterexample:
  "fst (exec_loop py_compile dollar_prompt 0 30 [] [] [Some ''ab'', Some (BS # ''c$'')] [1, 2])
     = Some (Inr ''abc$'') \<and>
   clean (strip_markers (''ab'' @ BS # ''c$'')) = ''ac$'' \<and>
   clean (strip_markers ''ab'' @ strip_markers (BS # ''c$'')) = ''ac$''"
  by code_simp

text \<open>
  C2, amended: for every sequence of polls and at every turn of the loop of
  execute\_command, the buffer against which the prompt pattern is tested is the
  concatenation, in order of arrival, of the normalization (pagination markers deleted,
  escape sequences stripped, backspaces resolved) of each chunk received so far, taken
  alone. Turn \<open>n\<close> (counted from 0) is reached when each earlier turn found no prompt
  in its buffer and no timeout; what the loop does at turn \<open>n\<close> is decided by the test
  of the prompt against that buffer: it returns the buffer when the prompt matches it,
  and otherwise reads the clock and raises TimeoutError or goes on to the next turn.
\<close>

theorem exec_buffer_every_turn:
  assumes "n < length chn"
    and "\<forall>j<n. re_search eng prompt (normalized (take (Suc j) chn)) = Some False \<and>
                j < length clk \<and> \<not> clk ! j - start > timeout"
  shows "exec_loop eng prompt start timeout [] snt chn clk =
     (let buf = normalized (take (Suc n) chn);
          snt' = snt @ concat (map keystrokes (received (take (Suc n) chn)))
      in case re_search eng prompt buf of
           None \<Rightarrow> (Some (Inl ReError), snt', drop (Suc n) chn, drop n clk)
         | Some found \<Rightarrow>
             if found then (Some (Inr buf), snt', drop (Suc n) chn, drop n clk)
             else if length clk \<le> n then (None, snt', drop (Suc n) chn, [])
             else if clk ! n - start > timeout
               then (Some (Inl TimeoutError), snt', drop (Suc n) chn, drop (Suc n) clk)
             else exec_loop eng prompt start timeout buf snt'
                    (drop (Suc n) chn) (drop (Suc n) clk))"
  using exec_loop_turn[where result = "[]" and n = n and chn = chn and eng = eng
      and prompt = prompt and clk = clk and start = start and timeout = timeout and snt = snt]
    assms
  by simp

text \<open>
  C2, witness: two runs that end at their second turn. With the chunks "ab" and
  backspace "c$" the buffer returned is "abc$"; with the prompt of main.py split over
  the chunks "user@host:~" and "$ " the loop finds it in the buffer of the second turn.
\<close>

theorem exec_buffer_every_turn_witness:
  "exec_loop py_compile dollar_prompt 0 30 [] [] [Some ''ab'', Some (BS # ''c$'')] [1, 2]
     = (Some (Inr ''abc$''), [], [], [2]) \<and>
   exec_loop py_compile main_prompt 0 30 [] [] [Some ''user@host:~'', Some ''$ ''] [1, 2]
     = (Some (Inr ''user@host:~$ ''), [], [], [2])"
proof -
  let ?a = "[Some ''ab'', Some (BS # ''c$'')]"
  let ?b = "[Some ''user@host:~'', Some ''$ '']"
  have n: "Suc 0 < length ?a" "Suc 0 < length ?b" by simp_all
  have a0: "re_search py_compile dollar_prompt (normalized (take (Suc 0) ?a)) = Some False"
    by code_simp
  have b0: "re_search py_compile main_prompt (normalized (take (Suc 0) ?b)) = Some False"
    by code_simp
  have ha: "\<forall>j<Suc 0. re_search py_compile dollar_prompt (normalized (take (Suc j) ?a)) = Some False \<and>
                j < length [1, 2 :: int] \<and> \<not> [1, 2 :: int] ! j - 0 > 30"
    using a0 by simp
  have hb: "\<forall>j<Suc 0. re_search py_compile main_prompt (normalized (take (Suc j) ?b)) = Some False \<and>
                j < length [1, 2 :: int] \<and> \<not> [1, 2 :: int] ! j - 0 > 30"
    using b0 by simp
  have a1: "normalized (take (Suc (Suc 0)) ?a) = ''abc$''"
    "re_search py_compile dollar_prompt ''abc$'' = Some True"
    "concat (map keystrokes (received (take (Suc (Suc 0)) ?a))) = []"
    by code_simp+
  have b1: "normalized (take (Suc (Suc 0)) ?b) = ''user@host:~$ ''"
    "re_search py_compile main_prompt ''user@host:~$ '' = Some True"
    "concat (map keystrokes (received (take (Suc (Suc 0)) ?b))) = []"
    by code_simp+
  have 1: "exec_loop py_compile dollar_prompt 0 30 [] [] ?a [1, 2]
     = (Some (Inr ''abc$''), [], [], [2])"
    using exec_buffer_every_turn[OF n(1) ha, of "[]"] unfolding a1 Let_def by simp
  have 2: "exec_loop py_compile main_prompt 0 30 [] [] ?b [1, 2]
     = (Some (Inr ''user@host:~$ ''), [], [], [2])"
    using exec_buffer_every_turn[OF n(2) hb, of "[]"] unfolding b1 Let_def by simp
  from 1 2 show ?thesis by blast
qed

lemma count_keystrokes:
  "count_list (concat (map keystrokes chunks)) '' '' =
     length (filter (contains more_marker) chunks)"
  by (induction chunks) (auto simp: keystrokes_def)

text \<open>
  C3, as stated, fails on both counts. A chunk that holds the marker twice draws a
  single space; and a marker that arrives split over two chunks is found in neither and
  stays in the returned text.
\<close>

theorem pager_counterexample:
  "occurrences more_marker (''show log'' @ [LF] @ ''a--More--b--More--c'' @ [LF] @ ''$ '') = 2 \<and>
   count_list (sent (snd (execute_command py_compile example_self ''show log'' dollar_prompt False 30
                            paged_env))) '' '' = 1 \<and>
   fst (execute_command py_compile example_self ''show log'' dollar_prompt False 30 split_marker_env)
     = Some (Inr (''line1'' @ [LF] @ ''--More--''))"
  by code_simp

text \<open>
  C3, amended: in every run of execute\_command on an open channel, the polls used are
  a prefix of those of the environment, and the number of advance keystrokes (single
  spaces) sent grows by the number of received chunks that contain the marker, one per
  such chunk however many occurrences it holds.
\<close>

theorem pager_keystroke_per_chunk:
  assumes "channel self \<noteq> None"
    and "execute_command eng self cmd prompt to_file timeout e = (r, e')"
  shows "chan_in e = take (length (chan_in e) - length (chan_in e')) (chan_in e) @ chan_in e' \<and>
         count_list (sent e') '' '' =
           count_list (sent e) '' '' +
           length (filter (contains more_marker)
                     (received (take (length (chan_in e) - length (chan_in e')) (chan_in e))))"
proof -
  from execute_command_trace[OF assms] obtain used where u: "chan_in e = used @ chan_in e'"
    "sent e' = sent e @ [cmd @ [LF]] @ concat (map keystrokes (received used))"
    by blast
  have t: "take (length (chan_in e) - length (chan_in e')) (chan_in e) = used"
    using u(1) by simp
  have "count_list (sent e') '' '' =
          count_list (sent e) '' '' + count_list (concat (map keystrokes (received used))) '' ''"
    unfolding u(2) by simp
  then show ?thesis unfolding t using u(1) by (simp add: count_keystrokes)
qed

text \<open>C3, witness: the chunk with two markers; one chunk, one space.\<close>

theorem pager_keystroke_per_chunk_witness:
  "count_list (sent (snd (execute_command py_compile example_self ''show log'' dollar_prompt False 30
                            paged_env))) '' '' =
   count_list (sent paged_env) '' '' +
     length (filter (contains more_marker) (received (chan_in paged_env)))"
proof -
  let ?x = "execute_command py_compile example_self ''show log'' dollar_prompt False 30 paged_env"
  have c: "channel example_self \<noteq> None" by (simp add: example_self_def)
  have x: "?x = (fst ?x, snd ?x)" by simp
  have r: "chan_in (snd ?x) = []" by code_simp
  have l: "length (chan_in paged_env) = 1" by code_simp
  from pager_keystroke_per_chunk[OF c x] show ?thesis
    unfolding r l by simp
qed






section \<open>execute\_commands\_from\_file\<close>

lemma run_commands_append:
  "run_commands eng self prompt to_file timeout pre e = (Some (Inr ()), e1) \<Longrightarrow>
   run_commands eng self prompt to_file timeout (pre @ rest) e =
     run_commands eng self prompt to_file timeout rest e1"
  by (induction pre arbitrary: e)
     (auto simp: Let_def split: prod.splits option.splits sum.splits if_splits)

lemma confirm_close_released: "released (confirm_close self)"
  by (simp add: released_def confirm_close_def split: option.splits)

text \<open>
  C9: for every command list, that is, whenever the commands file is named and exists
  (readable or not): every exit of the runner, return or error, goes through
  confirm\_close and leaves the session released; and when a command fails, the runner
  raises that error in the environment the failed command left: no later command of the
  list is executed.
\<close>

theorem runner_aborts_and_releases:
  assumes "commands_file self = Some path" "path \<noteq> []" "files e path = Some src"
  shows "(\<forall>r self' e'.
            execute_commands_from_file eng prompt to_file timeout self e = (Some r, self', e')
            \<longrightarrow> self' = confirm_close self \<and> released self') \<and>
         (\<forall>pre line post e1 err e2.
            src = Some (pre @ line # post) \<and>
            run_commands eng self prompt to_file timeout pre e = (Some (Inr ()), e1) \<and>
            strip line \<noteq> [] \<and>
            execute_command eng self (strip line) prompt to_file timeout e1 = (Some (Inl err), e2)
            \<longrightarrow> execute_commands_from_file eng prompt to_file timeout self e =
                  (Some (Inl err), confirm_close self, e2))"
proof (rule conjI; intro allI impI)
  fix r self' e'
  assume "execute_commands_from_file eng prompt to_file timeout self e = (Some r, self', e')"
  with assms have "self' = confirm_close self"
    by (auto simp: execute_commands_from_file_def split: option.splits prod.splits)
  then show "self' = confirm_close self \<and> released self'"
    by (simp add: confirm_close_released)
next
  fix pre line post e1 err e2
  assume h: "src = Some (pre @ line # post) \<and>
            run_commands eng self prompt to_file timeout pre e = (Some (Inr ()), e1) \<and>
            strip line \<noteq> [] \<and>
            execute_command eng self (strip line) prompt to_file timeout e1 = (Some (Inl err), e2)"
  then have "run_commands eng self prompt to_file timeout (pre @ line # post) e =
             run_commands eng self prompt to_file timeout (line # post) e1"
    using run_commands_append[of eng self prompt to_file timeout pre e e1 "line # post"] by simp
  also have "\<dots> = (Some (Inl err), e2)" using h by (simp add: Let_def)
  finally show "execute_commands_from_file eng prompt to_file timeout self e =
                  (Some (Inl err), confirm_close self, e2)"
    using assms h by (simp add: execute_commands_from_file_def)
qed

text \<open>
  C9, witness: a script of two commands on a silent channel. The first command times
  out; the runner raises TimeoutError, the session is released, the environment is the
  one the first command left and the second command was never sent.
\<close>

theorem runner_aborts_and_releases_witness:
  "execute_commands_from_file py_compile dollar_prompt True 30 example_self script_env =
     (Some (Inl TimeoutError), confirm_close example_self,
      snd (execute_command py_compile example_self ''show version'' dollar_prompt True 30
             script_env)) \<and>
   released (fst (snd (execute_commands_from_file py_compile dollar_prompt True 30
                         example_self script_env))) \<and>
   sent (snd (execute_command py_compile example_self ''show version'' dollar_prompt True 30
                script_env)) = [''show version'' @ [LF]]"
proof -
  let ?x = "execute_commands_from_file py_compile dollar_prompt True 30 example_self script_env"
  let ?c = "execute_command py_compile example_self ''show version'' dollar_prompt True 30
              script_env"
  let ?src = "[''show version'' @ [LF], [LF], ''show log'' @ [LF]]"
  have a: "commands_file example_self = Some ''commands.txt''" by (simp add: example_self_def)
  have b: "''commands.txt'' \<noteq> []" by simp
  have c: "files script_env ''commands.txt'' = Some (Some ?src)"
    by (simp add: script_env_def)
  note t = runner_aborts_and_releases[OF a b c, of py_compile dollar_prompt True 30]
  have st: "strip (''show version'' @ [LF]) = ''show version''" by code_simp
  have "fst ?c = Some (Inl TimeoutError)" by code_simp
  then obtain e2 where f: "?c = (Some (Inl TimeoutError), e2)" by (cases ?c) auto
  have h: "Some ?src = Some ([] @ (''show version'' @ [LF]) # [[LF], ''show log'' @ [LF]]) \<and>
        run_commands py_compile example_self dollar_prompt True 30 [] script_env
          = (Some (Inr ()), script_env) \<and>
        strip (''show version'' @ [LF]) \<noteq> [] \<and>
        execute_command py_compile example_self (strip (''show version'' @ [LF])) dollar_prompt
          True 30 script_env = (Some (Inl TimeoutError), e2)"
    unfolding st using f by simp
  have 1: "?x = (Some (Inl TimeoutError), confirm_close example_self, e2)"
    using h by (rule t[THEN conjunct2, rule_format])
  have 2: "released (fst (snd ?x))"
    using t[THEN conjunct1, rule_format, OF 1] unfolding 1 by simp
  have 3: "sent (snd ?c) = [''show version'' @ [LF]]" by code_simp
  have 4: "e2 = snd ?c" unfolding f by simp
  from 1 2 3 show ?thesis unfolding 4 by blast
qed

end
